theory Spec2Isabelle
  imports Main "HOL-Library.Multiset"
begin

section \<open>Data model\<close>

text \<open>
  Go strings and byte slices are both sequences of bytes; they are modelled as
  \<open>string\<close> (a list of 8-bit characters).
\<close>

type_synonym bytes = string

text \<open>
  One constructor for every error value the embedded functions build, and one for the
  errors of each library they pass on unchanged.
\<close>

datatype error =
    X509Error
  | PKCS12Error
  | CertificateIsNil
  | NoLeafFound
  | ChainCycle
  | Base64CorruptInput
  | HexErrLength
  | HexInvalidByte
  | KeyParseFailed
  | InvalidObjectFormat
  | PFXOnlyForSecret
  | InvalidObjectEncoding
  | FileNameEmpty
  | FileNameNotRelative
  | FileNameDotDot

text \<open>
  \<open>pem.Block\<close>. A PEM byte stream written by \<open>pem.EncodeToMemory\<close> is represented by the
  sequence of blocks it encodes: appending an encoded block appends to the sequence, and
  \<open>pem.Decode\<close> returns the first block together with the rest of the sequence.
\<close>

record pem_block =
  Type :: string
  Headers :: "string \<rightharpoonup> string"
  Bytes :: bytes

text \<open>The fields of \<open>x509.Certificate\<close> that \<open>fetchCertChains\<close> reads.\<close>

record certificate =
  Raw :: bytes
  SubjectKeyId :: bytes
  AuthorityKeyId :: bytes

text \<open>
  \<open>type node struct\<close>. The two pointer fields are addresses: \<open>cert\<close> is the position of
  the certificate in the list of parsed certificates (every node owns a freshly parsed
  one), \<open>parent\<close> is the position of a node in \<open>nodes\<close>, \<open>None\<close> for \<open>nil\<close>.
\<close>

record node =
  cert :: nat
  parent :: "nat option"
  isParent :: bool

text \<open>\<open>type KeyVaultObject struct\<close>.\<close>

record KeyVaultObject =
  ObjectName :: string
  ObjectAlias :: string
  ObjectVersion :: string
  ObjectType :: string
  ObjectFormat :: string
  ObjectEncoding :: string

text \<open>
  The functions of \<open>crypto/x509\<close> and \<open>golang.org/x/crypto/pkcs12\<close> that the provider
  calls. They are not part of the repository, so they are parameters of the model;
  \<open>'k\<close> is the type of parsed private keys, \<open>Inl\<close> a non-nil \<open>err\<close>. \<open>ToPEM\<close> is
  \<open>pkcs12.ToPEM\<close> at the empty password.
\<close>

record 'k libs =
  ToPEM :: "bytes \<Rightarrow> error + pem_block list"
  ParsePKCS1PrivateKey :: "bytes \<Rightarrow> error + 'k"
  ParsePKCS8PrivateKey :: "bytes \<Rightarrow> error + 'k"
  ParseECPrivateKey :: "bytes \<Rightarrow> error + 'k"
  MarshalPKCS8PrivateKey :: "'k \<Rightarrow> error + bytes"
  ParseCertificate :: "bytes \<Rightarrow> error + certificate option"

section \<open>Constants\<close>

definition VaultObjectTypeSecret :: string where "VaultObjectTypeSecret = ''secret''"
definition VaultObjectTypeKey :: string where "VaultObjectTypeKey = ''key''"
definition VaultObjectTypeCertificate :: string where "VaultObjectTypeCertificate = ''cert''"
definition certificateType :: string where "certificateType = ''CERTIFICATE''"
definition objectFormatPEM :: string where "objectFormatPEM = ''pem''"
definition objectFormatPFX :: string where "objectFormatPFX = ''pfx''"
definition objectEncodingHex :: string where "objectEncodingHex = ''hex''"
definition objectEncodingBase64 :: string where "objectEncodingBase64 = ''base64''"
definition objectEncodingUtf8 :: string where "objectEncodingUtf8 = ''utf-8''"

section \<open>Library functions on strings\<close>

text \<open>
  \<open>strings.EqualFold(s, t)\<close> for an ASCII \<open>t\<close>, which is how the provider calls it (the
  second argument is always one of the constants above). Two bytes below \<open>0x80\<close> are
  equal under folding when they are equal after mapping \<open>A..Z\<close> to \<open>a..z\<close>. Unicode
  simple folding puts two more runes in the orbit of an ASCII letter: U+017F (the bytes
  \<open>C5 BF\<close>) folds to \<open>s\<close> and U+212A (\<open>E2 84 AA\<close>) folds to \<open>k\<close>.
\<close>

definition foldASCII :: "char \<Rightarrow> nat" where
  "foldASCII c = (let n = of_char c :: nat in if 65 \<le> n \<and> n \<le> 90 then n + 32 else n)"

fun EqualFold :: "string \<Rightarrow> string \<Rightarrow> bool" where
  "EqualFold [] [] = True"
| "EqualFold [] (t # ts) = False"
| "EqualFold (c # cs) [] = False"
| "EqualFold (c # cs) (t # ts) =
     (if foldASCII c = foldASCII t then EqualFold cs ts
      else (case cs of
              [] \<Rightarrow> False
            | d # ds \<Rightarrow>
                if c = CHR 0xC5 \<and> d = CHR 0xBF \<and> foldASCII t = 115 then EqualFold ds ts
                else (case ds of
                        [] \<Rightarrow> False
                      | e # es \<Rightarrow>
                          if c = CHR 0xE2 \<and> d = CHR 0x84 \<and> e = CHR 0xAA \<and> foldASCII t = 107
                          then EqualFold es ts else False)))"

text \<open>\<open>strings.Split(s, sep)\<close> for a one-byte separator.\<close>

fun Split :: "string \<Rightarrow> char \<Rightarrow> string list" where
  "Split [] sep = [[]]"
| "Split (c # cs) sep =
     (if c = sep then [] # Split cs sep
      else (c # hd (Split cs sep)) # tl (Split cs sep))"

definition HasPrefix :: "string \<Rightarrow> string \<Rightarrow> bool" where
  "HasPrefix s prefix = (take (length prefix) s = prefix)"

fun Contains :: "string \<Rightarrow> string \<Rightarrow> bool" where
  "Contains [] substr = (substr = [])"
| "Contains (c # cs) substr = (HasPrefix (c # cs) substr \<or> Contains cs substr)"

text \<open>\<open>filepath.ToSlash\<close>: the platform's separator is replaced by a slash.\<close>

definition ToSlash :: "char \<Rightarrow> string \<Rightarrow> string" where
  "ToSlash Separator path =
     (if Separator = CHR ''/'' then path
      else map (\<lambda>c. if c = Separator then CHR ''/'' else c) path)"

section \<open>encoding/base64 and encoding/hex\<close>

text \<open>
  \<open>base64.StdEncoding\<close>: the standard alphabet with \<open>=\<close> padding. \<open>EncodeToString\<close>
  writes four characters for every three bytes. \<open>DecodeString\<close> ignores carriage returns
  and line feeds, requires the padding, accepts it only in the last quantum, and does not
  check the unused trailing bits. On an error Go also returns the bytes decoded so far;
  the model keeps the error only.
\<close>

definition encodeStd :: string where
  "encodeStd = ''ABCDEFGHIJKLMNOPQRSTUVWXYZabcdefghijklmnopqrstuvwxyz0123456789+/''"

fun indexByte :: "string \<Rightarrow> char \<Rightarrow> nat option" where
  "indexByte [] c = None"
| "indexByte (x # xs) c = (if x = c then Some 0 else map_option Suc (indexByte xs c))"

fun base64_EncodeToString :: "bytes \<Rightarrow> string" where
  "base64_EncodeToString [] = []"
| "base64_EncodeToString [a] =
     (let x = of_char a :: nat in
      [encodeStd ! (x div 4), encodeStd ! ((x mod 4) * 16), CHR ''='', CHR ''=''])"
| "base64_EncodeToString [a, b] =
     (let x = of_char a :: nat; y = of_char b :: nat in
      [encodeStd ! (x div 4), encodeStd ! ((x mod 4) * 16 + y div 16),
       encodeStd ! ((y mod 16) * 4), CHR ''=''])"
| "base64_EncodeToString (a # b # c # rest) =
     (let x = of_char a :: nat; y = of_char b :: nat; z = of_char c :: nat in
      [encodeStd ! (x div 4), encodeStd ! ((x mod 4) * 16 + y div 16),
       encodeStd ! ((y mod 16) * 4 + z div 64), encodeStd ! (z mod 64)]
      @ base64_EncodeToString rest)"

fun decodeQuanta :: "string \<Rightarrow> error + bytes" where
  "decodeQuanta [] = Inr []"
| "decodeQuanta (w # x # y # z # rest) =
     (case (indexByte encodeStd w, indexByte encodeStd x) of
        (Some i1, Some i2) \<Rightarrow>
          if y = CHR ''='' then
            (if z = CHR ''='' \<and> rest = [] then Inr [char_of (i1 * 4 + i2 div 16)]
             else Inl Base64CorruptInput)
          else
            (case indexByte encodeStd y of
               None \<Rightarrow> Inl Base64CorruptInput
             | Some i3 \<Rightarrow>
                 if z = CHR ''='' then
                   (if rest = [] then
                      Inr [char_of (i1 * 4 + i2 div 16), char_of ((i2 mod 16) * 16 + i3 div 4)]
                    else Inl Base64CorruptInput)
                 else
                   (case indexByte encodeStd z of
                      None \<Rightarrow> Inl Base64CorruptInput
                    | Some i4 \<Rightarrow>
                        (case decodeQuanta rest of
                           Inl e \<Rightarrow> Inl e
                         | Inr bs \<Rightarrow>
                             Inr (char_of (i1 * 4 + i2 div 16)
                                  # char_of ((i2 mod 16) * 16 + i3 div 4)
                                  # char_of ((i3 mod 4) * 64 + i4) # bs))))
      | _ \<Rightarrow> Inl Base64CorruptInput)"
| "decodeQuanta _ = Inl Base64CorruptInput"

definition base64_DecodeString :: "string \<Rightarrow> error + bytes" where
  "base64_DecodeString s = decodeQuanta (filter (\<lambda>c. c \<noteq> CHR 0x0D \<and> c \<noteq> CHR 0x0A) s)"

text \<open>
  \<open>hex.EncodeToString\<close> writes lower-case digits; \<open>hex.DecodeString\<close> accepts both cases,
  reports an invalid byte before an odd length.
\<close>

definition hextable :: string where
  "hextable = ''0123456789abcdef''"

definition fromHexChar :: "char \<Rightarrow> nat option" where
  "fromHexChar c =
     (let n = of_char c :: nat in
      if 48 \<le> n \<and> n \<le> 57 then Some (n - 48)
      else if 97 \<le> n \<and> n \<le> 102 then Some (n - 97 + 10)
      else if 65 \<le> n \<and> n \<le> 70 then Some (n - 65 + 10)
      else None)"

fun hex_EncodeToString :: "bytes \<Rightarrow> string" where
  "hex_EncodeToString [] = []"
| "hex_EncodeToString (v # rest) =
     hextable ! (of_char v div 16) # hextable ! (of_char v mod 16) # hex_EncodeToString rest"

fun hex_DecodeString :: "string \<Rightarrow> error + bytes" where
  "hex_DecodeString [] = Inr []"
| "hex_DecodeString [p] =
     (case fromHexChar p of None \<Rightarrow> Inl HexInvalidByte | Some a \<Rightarrow> Inl HexErrLength)"
| "hex_DecodeString (p # q # rest) =
     (case fromHexChar p of
        None \<Rightarrow> Inl HexInvalidByte
      | Some a \<Rightarrow>
          (case fromHexChar q of
             None \<Rightarrow> Inl HexInvalidByte
           | Some b \<Rightarrow>
               (case hex_DecodeString rest of
                  Inl e \<Rightarrow> Inl e
                | Inr bs \<Rightarrow> Inr (char_of (a * 16 + b) # bs))))"


section \<open>Object format and encoding\<close>

text \<open>\<open>validateObjectFormat\<close>; \<open>None\<close> is the \<open>nil\<close> error.\<close>

definition validateObjectFormat :: "string \<Rightarrow> string \<Rightarrow> error option" where
  "validateObjectFormat objectFormat objectType =
     (if length objectFormat = 0 then None
      else if \<not> EqualFold objectFormat objectFormatPEM \<and> \<not> EqualFold objectFormat objectFormatPFX
      then Some InvalidObjectFormat
      else if objectFormat = objectFormatPFX \<and> objectType \<noteq> VaultObjectTypeSecret
      then Some PFXOnlyForSecret
      else None)"

text \<open>
  \<open>getContentBytes\<close>. Where Go returns a byte slice together with a non-nil error, the
  model returns the error.
\<close>

definition getContentBytes :: "string \<Rightarrow> string \<Rightarrow> string \<Rightarrow> error + bytes" where
  "getContentBytes content objectType objectEncoding =
     (if \<not> EqualFold objectType VaultObjectTypeSecret \<or> length objectEncoding = 0
         \<or> EqualFold objectEncoding objectEncodingUtf8
      then Inr content
      else if EqualFold objectEncoding objectEncodingBase64 then base64_DecodeString content
      else if EqualFold objectEncoding objectEncodingHex then hex_DecodeString content
      else Inl InvalidObjectEncoding)"


section \<open>File names\<close>

text \<open>
  \<open>validateFileName\<close>. \<open>filepath.IsAbs\<close> and the path separator depend on the platform
  and are parameters. The loop over \<open>parts\<close> is \<open>anyDotDot\<close>.
\<close>

fun anyDotDot :: "string list \<Rightarrow> bool" where
  "anyDotDot [] = False"
| "anyDotDot (item # parts) = (if item = ''..'' then True else anyDotDot parts)"

definition validateFileName :: "(string \<Rightarrow> bool) \<Rightarrow> char \<Rightarrow> string \<Rightarrow> error option" where
  "validateFileName IsAbs Separator fileName =
     (if length fileName = 0 then Some FileNameEmpty
      else if IsAbs fileName then Some FileNameNotRelative
      else if anyDotDot (Split (ToSlash Separator fileName) CHR ''/'') then Some FileNameDotDot
      else if Contains fileName ''..'' then Some FileNameDotDot
      else None)"

text \<open>
  The choice and the check of the output file name in \<open>MountSecretsStoreObjectContent\<close>:
  the alias when there is one, the object name otherwise; the mount fails when
  \<open>validateFileName\<close> does.
\<close>

definition mountFileName ::
  "(string \<Rightarrow> bool) \<Rightarrow> char \<Rightarrow> KeyVaultObject \<Rightarrow> error + string" where
  "mountFileName IsAbs Separator keyVaultObject =
     (let fileName = ObjectName keyVaultObject;
          fileName = (if ObjectAlias keyVaultObject \<noteq> [] then ObjectAlias keyVaultObject
                      else fileName)
      in case validateFileName IsAbs Separator fileName of
           Some err \<Rightarrow> Inl err
         | None \<Rightarrow> Inr fileName)"

text \<open>\<open>filepath.IsAbs\<close> on Unix.\<close>

definition IsAbs_unix :: "string \<Rightarrow> bool" where
  "IsAbs_unix path = HasPrefix path ''/''"

section \<open>Private keys\<close>

text \<open>\<open>parsePrivateKey\<close>: a parser's result is returned when its \<open>err\<close> is \<open>nil\<close>.\<close>

definition parsePrivateKey :: "'k libs \<Rightarrow> bytes \<Rightarrow> error + 'k" where
  "parsePrivateKey L block =
     (case ParsePKCS1PrivateKey L block of
        Inr key \<Rightarrow> Inr key
      | Inl _ \<Rightarrow>
          (case ParsePKCS8PrivateKey L block of
             Inr key \<Rightarrow> Inr key
           | Inl _ \<Rightarrow>
               (case ParseECPrivateKey L block of
                  Inr key \<Rightarrow> Inr key
                | Inl _ \<Rightarrow> Inl KeyParseFailed)))"

section \<open>fetchCertChains\<close>

text \<open>
  The first loop: every block of the stream is parsed with \<open>x509.ParseCertificate\<close> and
  appended.
\<close>

fun parseNodes :: "'k libs \<Rightarrow> pem_block list \<Rightarrow> certificate list \<Rightarrow> error + certificate list" where
  "parseNodes L [] cs = Inr cs"
| "parseNodes L (block # rest) cs =
     (case ParseCertificate L (Bytes block) of
        Inl err \<Rightarrow> Inl err
      | Inr None \<Rightarrow> Inl CertificateIsNil
      | Inr (Some c) \<Rightarrow> parseNodes L rest (cs @ [c]))"

definition newNodes :: "certificate list \<Rightarrow> node list" where
  "newNodes cs = map (\<lambda>i. \<lparr>cert = i, parent = None, isParent = False\<rparr>) [0..<length cs]"

text \<open>The inner loop \<open>for j := range nodes\<close> for a fixed \<open>i\<close>, with its \<open>continue\<close> and \<open>break\<close>.\<close>

fun linkParent :: "certificate list \<Rightarrow> nat \<Rightarrow> nat list \<Rightarrow> node list \<Rightarrow> node list" where
  "linkParent cs i [] nodes = nodes"
| "linkParent cs i (j # js) nodes =
     (if i = j then linkParent cs i js nodes
      else if AuthorityKeyId (cs ! cert (nodes ! i)) = SubjectKeyId (cs ! cert (nodes ! j))
      then
        (let nodes1 = nodes[j := (nodes ! j)\<lparr>isParent := True\<rparr>];
             nodes2 = nodes1[i := (nodes1 ! i)\<lparr>parent := Some j\<rparr>]
         in nodes2)
      else linkParent cs i js nodes)"

text \<open>The outer loop \<open>for i := range nodes\<close>.\<close>

fun linkNodes :: "certificate list \<Rightarrow> nat list \<Rightarrow> node list \<Rightarrow> node list" where
  "linkNodes cs [] nodes = nodes"
| "linkNodes cs (i # is) nodes =
     linkNodes cs is (linkParent cs i [0..<length nodes] nodes)"

text \<open>The leaf scan: the first node that is nobody's parent.\<close>

fun findLeaf :: "node list \<Rightarrow> nat list \<Rightarrow> nat option" where
  "findLeaf nodes [] = None"
| "findLeaf nodes (i # is) =
     (if \<not> isParent (nodes ! i) then Some i else findLeaf nodes is)"

text \<open>The loop \<open>for leaf != nil\<close>, with the counter that guards against a cycle.\<close>

function walkChain :: "node list \<Rightarrow> nat option \<Rightarrow> nat \<Rightarrow> nat list \<Rightarrow> error + nat list" where
  "walkChain nodes None processedNodes newCertChain = Inr newCertChain"
| "walkChain nodes (Some leaf) processedNodes newCertChain =
     (if processedNodes + 1 > length nodes then Inl ChainCycle
      else walkChain nodes (parent (nodes ! leaf)) (processedNodes + 1)
             (newCertChain @ [cert (nodes ! leaf)]))"
  by pat_completeness auto
termination
  by (relation "measure (\<lambda>(nodes, leaf, processedNodes, newCertChain).
        length nodes + 1 - processedNodes)") auto

text \<open>
  From the parsed certificates to \<open>newCertChain\<close>: the chain is a list of certificate
  pointers, leaf first.
\<close>

definition certChain :: "certificate list \<Rightarrow> error + nat list" where
  "certChain cs =
     (let nodes0 = newNodes cs;
          nodes = linkNodes cs [0..<length nodes0] nodes0
      in case findLeaf nodes [0..<length nodes] of
           None \<Rightarrow> Inl NoLeafFound
         | Some leaf \<Rightarrow> walkChain nodes (Some leaf) 0 [])"

definition certBlock :: "certificate \<Rightarrow> pem_block" where
  "certBlock c = \<lparr>Type = certificateType, Headers = Map.empty, Bytes = Raw c\<rparr>"

definition fetchCertChains :: "'k libs \<Rightarrow> pem_block list \<Rightarrow> error + pem_block list" where
  "fetchCertChains L data =
     (case parseNodes L data [] of
        Inl err \<Rightarrow> Inl err
      | Inr cs \<Rightarrow>
          (case certChain cs of
             Inl err \<Rightarrow> Inl err
           | Inr newCertChain \<Rightarrow> Inr (map (\<lambda>p. certBlock (cs ! p)) newCertChain)))"

section \<open>decodePKCS12\<close>

text \<open>
  The loop over the blocks of \<open>pkcs12.ToPEM\<close>, with the two output streams as
  accumulators.
\<close>

fun decodeBlocks ::
  "'k libs \<Rightarrow> pem_block list \<Rightarrow> pem_block list \<Rightarrow> pem_block list
    \<Rightarrow> error + pem_block list \<times> pem_block list" where
  "decodeBlocks L [] pemKeyData pemCertData = Inr (pemKeyData, pemCertData)"
| "decodeBlocks L (block # rest) pemKeyData pemCertData =
     (let block = block\<lparr>Headers := Map.empty\<rparr> in
      if Type block = certificateType
      then decodeBlocks L rest pemKeyData (pemCertData @ [block])
      else
        (case parsePrivateKey L (Bytes block) of
           Inl err \<Rightarrow> Inl err
         | Inr key \<Rightarrow>
             (case MarshalPKCS8PrivateKey L key of
                Inl err \<Rightarrow> Inl err
              | Inr der \<Rightarrow>
                  decodeBlocks L rest (pemKeyData @ [block\<lparr>Bytes := der\<rparr>]) pemCertData)))"

text \<open>\<open>decodePKCS12\<close>; the flag \<open>*ConstructPEMChain\<close> is a parameter.\<close>

definition decodePKCS12 :: "'k libs \<Rightarrow> bool \<Rightarrow> string \<Rightarrow> error + pem_block list" where
  "decodePKCS12 L ConstructPEMChain value =
     (case base64_DecodeString value of
        Inl err \<Rightarrow> Inl err
      | Inr pfxRaw \<Rightarrow>
          (case ToPEM L pfxRaw of
             Inl err \<Rightarrow> Inl err
           | Inr pemBlock \<Rightarrow>
               (case decodeBlocks L pemBlock [] [] of
                  Inl err \<Rightarrow> Inl err
                | Inr (pemKeyData, pemCertData) \<Rightarrow>
                    if ConstructPEMChain then
                      (case fetchCertChains L pemCertData of
                         Inl err \<Rightarrow> Inl err
                       | Inr chain \<Rightarrow> Inr (pemKeyData @ chain))
                    else Inr (pemKeyData @ pemCertData))))"

section \<open>Notions used in the statements and proofs\<close>

text \<open>Every node points to its own certificate, and every parent pointer is a node.\<close>

definition wfNodes :: "node list \<Rightarrow> bool" where
  "wfNodes nodes =
     (\<forall>i<length nodes. cert (nodes ! i) = i \<and>
        (\<forall>j. parent (nodes ! i) = Some j \<longrightarrow> j < length nodes))"

text \<open>\<open>isPath nodes l path\<close>: following \<open>parent\<close> from \<open>l\<close> visits \<open>path\<close> and then ends at \<open>nil\<close>.\<close>

fun isPath :: "node list \<Rightarrow> nat option \<Rightarrow> nat list \<Rightarrow> bool" where
  "isPath nodes None path = (path = [])"
| "isPath nodes (Some p) [] = False"
| "isPath nodes (Some p) (q # qs) = (p = q \<and> isPath nodes (parent (nodes ! p)) qs)"

text \<open>
  What the claim on \<open>decodePKCS12\<close> speaks of: the certificate blocks of a container in
  container order with their headers cleared, and a key block re-marshalled as PKCS#8.
\<close>

definition certStream :: "pem_block list \<Rightarrow> pem_block list" where
  "certStream pemBlock =
     map (\<lambda>b. b\<lparr>Headers := Map.empty\<rparr>) (filter (\<lambda>b. Type b = certificateType) pemBlock)"

definition pkcs8Block :: "'k libs \<Rightarrow> pem_block \<Rightarrow> error + pem_block" where
  "pkcs8Block L b =
     (case parsePrivateKey L (Bytes b) of
        Inl err \<Rightarrow> Inl err
      | Inr key \<Rightarrow>
          (case MarshalPKCS8PrivateKey L key of
             Inl err \<Rightarrow> Inl err
           | Inr der \<Rightarrow> Inr (b\<lparr>Headers := Map.empty, Bytes := der\<rparr>)))"

section \<open>Sample inputs\<close>

text \<open>
  A toy library for concrete runs: a key is the text after a one-letter tag that names
  its encoding, a certificate is three bytes (a name, the subject key identifier, the
  authority key identifier).
\<close>

definition sampleLib :: "string libs" where
  "sampleLib =
     \<lparr>ToPEM = (\<lambda>pfxRaw.
        if pfxRaw = ''PFX'' then
          Inr [\<lparr>Type = ''PRIVATE KEY'', Headers = [''localKeyId'' \<mapsto> ''01''], Bytes = ''1k''\<rparr>,
               \<lparr>Type = ''CERTIFICATE'', Headers = [''localKeyId'' \<mapsto> ''01''], Bytes = ''Aab''\<rparr>,
               \<lparr>Type = ''CERTIFICATE'', Headers = Map.empty, Bytes = ''Ccc''\<rparr>]
        else Inl PKCS12Error),
      ParsePKCS1PrivateKey = (\<lambda>der. if take 1 der = ''1'' then Inr (drop 1 der) else Inl X509Error),
      ParsePKCS8PrivateKey = (\<lambda>der. if take 1 der = ''8'' then Inr (drop 1 der) else Inl X509Error),
      ParseECPrivateKey = (\<lambda>der. if take 1 der = ''E'' then Inr (drop 1 der) else Inl X509Error),
      MarshalPKCS8PrivateKey = (\<lambda>key. Inr (''8'' @ key)),
      ParseCertificate = (\<lambda>der.
        case der of
          [n, s, a] \<Rightarrow> Inr (Some \<lparr>Raw = der, SubjectKeyId = [s], AuthorityKeyId = [a]\<rparr>)
        | _ \<Rightarrow> Inl X509Error)\<rparr>"

definition sampleCert :: "string \<Rightarrow> certificate" where
  "sampleCert der = \<lparr>Raw = der, SubjectKeyId = [der ! 1], AuthorityKeyId = [der ! 2]\<rparr>"

definition sampleBlock :: "string \<Rightarrow> pem_block" where
  "sampleBlock der = \<lparr>Type = ''CERTIFICATE'', Headers = Map.empty, Bytes = der\<rparr>"


section \<open>The parent links\<close>

lemma upt2: "[0..<2] = [0, Suc 0]"
  by (simp add: upt_rec)

lemma upt3: "[0..<3] = [0, Suc 0, Suc (Suc 0)]"
  by (simp add: upt_rec)

lemma linkParent_length [simp]: "length (linkParent cs i js nodes) = length nodes"
  by (induction js) (auto simp: Let_def)

lemma linkNodes_length [simp]: "length (linkNodes cs is nodes) = length nodes"
  by (induction "is" arbitrary: nodes) simp_all

lemma wf_set_isParent:
  "wfNodes nodes \<Longrightarrow> wfNodes (nodes[j := (nodes ! j)\<lparr>isParent := True\<rparr>])"
  by (cases "j < length nodes") (auto simp: wfNodes_def nth_list_update)

lemma wf_set_parent:
  "wfNodes nodes \<Longrightarrow> j < length nodes \<Longrightarrow> wfNodes (nodes[i := (nodes ! i)\<lparr>parent := Some j\<rparr>])"
  by (cases "i < length nodes") (auto simp: wfNodes_def nth_list_update)

lemma linkParent_wf:
  "wfNodes nodes \<Longrightarrow> \<forall>j\<in>set js. j < length nodes
     \<Longrightarrow> wfNodes (linkParent cs i js nodes)"
proof (induction js)
  case Nil
  then show ?case by simp
next
  case (Cons j js)
  have "wfNodes ((nodes[j := (nodes ! j)\<lparr>isParent := True\<rparr>])
           [i := ((nodes[j := (nodes ! j)\<lparr>isParent := True\<rparr>]) ! i)\<lparr>parent := Some j\<rparr>])"
    using Cons.prems by (intro wf_set_parent wf_set_isParent) simp_all
  moreover have "wfNodes (linkParent cs i js nodes)"
    using Cons by simp
  ultimately show ?case by (auto simp: Let_def)
qed

lemma linkNodes_wf:
  "wfNodes nodes \<Longrightarrow> \<forall>i\<in>set is. i < length nodes \<Longrightarrow> wfNodes (linkNodes cs is nodes)"
proof (induction "is" arbitrary: nodes)
  case Nil
  then show ?case by simp
next
  case (Cons i "is")
  have "wfNodes (linkParent cs i [0..<length nodes] nodes)"
    using Cons.prems by (intro linkParent_wf) simp_all
  with Cons show ?case by simp
qed

lemma newNodes_wf: "wfNodes (newNodes cs)"
  by (simp add: wfNodes_def newNodes_def)

lemma findLeaf_range: "findLeaf nodes is = Some l \<Longrightarrow> l \<in> set is"
  by (induction "is") (auto split: if_splits)

lemma walkChain_path:
  "walkChain nodes l k acc = Inr out \<Longrightarrow> k \<le> length nodes \<Longrightarrow>
     \<exists>path. isPath nodes l path \<and> out = acc @ map (\<lambda>p. cert (nodes ! p)) path
        \<and> k + length path \<le> length nodes"
proof (induction nodes l k acc rule: walkChain.induct)
  case (1 nodes k acc)
  then show ?case by simp
next
  case (2 nodes leaf k acc)
  from "2.prems" have le: "k + 1 \<le> length nodes" by (auto split: if_splits)
  with "2.prems" have "walkChain nodes (parent (nodes ! leaf)) (k + 1) (acc @ [cert (nodes ! leaf)]) = Inr out"
    by (simp split: if_splits)
  with "2.IH" le obtain path where
    p: "isPath nodes (parent (nodes ! leaf)) path"
      "out = (acc @ [cert (nodes ! leaf)]) @ map (\<lambda>p. cert (nodes ! p)) path"
      "k + 1 + length path \<le> length nodes"
    by fastforce
  show ?case
    by (rule exI [of _ "leaf # path"]) (use p in simp)
qed

lemma isPath_unique: "isPath nodes l p1 \<Longrightarrow> isPath nodes l p2 \<Longrightarrow> p1 = p2"
proof (induction p1 arbitrary: l p2)
  case Nil
  then show ?case by (cases l; cases p2) simp_all
next
  case (Cons q qs)
  from Cons.prems(1) obtain p where l: "l = Some p" by (cases l) simp_all
  with Cons.prems(2) obtain r rs where p2: "p2 = r # rs" by (cases p2) simp_all
  from Cons.prems l p2 have "q = r" and "isPath nodes (parent (nodes ! p)) qs"
    and "isPath nodes (parent (nodes ! p)) rs" by auto
  with Cons.IH p2 show ?case by blast
qed

lemma isPath_suffix:
  "isPath nodes l path \<Longrightarrow> x \<in> set path \<Longrightarrow>
     \<exists>sfx. isPath nodes (Some x) sfx \<and> length sfx \<le> length path"
proof (induction nodes l path rule: isPath.induct)
  case (3 nodes p q qs)
  show ?case
  proof (cases "x = q")
    case True
    with "3.prems" show ?thesis by (intro exI [of _ "q # qs"]) auto
  next
    case False
    with "3.prems" "3.IH" obtain sfx where "isPath nodes (Some x) sfx" "length sfx \<le> length qs"
      by auto
    then show ?thesis by (intro exI [of _ sfx]) simp
  qed
qed simp_all

lemma isPath_distinct: "isPath nodes l path \<Longrightarrow> distinct path"
proof (induction nodes l path rule: isPath.induct)
  case (3 nodes p q qs)
  from "3.prems" have tl: "isPath nodes (parent (nodes ! p)) qs" and pq: "p = q" by auto
  have "q \<notin> set qs"
  proof
    assume "q \<in> set qs"
    with tl obtain sfx where s: "isPath nodes (Some q) sfx" "length sfx \<le> length qs"
      using isPath_suffix by blast
    from "3.prems" pq have "isPath nodes (Some q) (q # qs)" by simp
    with s(1) have "sfx = q # qs" by (rule isPath_unique)
    with s(2) show False by simp
  qed
  with "3.IH" tl pq show ?case by simp
qed simp_all

lemma isPath_range:
  "isPath nodes l path \<Longrightarrow> wfNodes nodes \<Longrightarrow> \<forall>p. l = Some p \<longrightarrow> p < length nodes
     \<Longrightarrow> \<forall>p\<in>set path. p < length nodes"
proof (induction nodes l path rule: isPath.induct)
  case (3 nodes p q qs)
  then show ?case by (auto simp: wfNodes_def)
qed simp_all

lemma certChain_path:
  assumes "certChain cs = Inr chain"
  shows "distinct chain \<and> length chain \<le> length cs \<and> (\<forall>p\<in>set chain. p < length cs)"
proof -
  define nodes where "nodes = linkNodes cs [0..<length (newNodes cs)] (newNodes cs)"
  have len: "length nodes = length cs" by (simp add: nodes_def newNodes_def)
  have wf: "wfNodes nodes"
    unfolding nodes_def by (intro linkNodes_wf newNodes_wf) simp
  from assms obtain leaf where leaf: "findLeaf nodes [0..<length nodes] = Some leaf"
    and walk: "walkChain nodes (Some leaf) 0 [] = Inr chain"
    by (auto simp: certChain_def Let_def nodes_def split: option.splits)
  from walkChain_path [OF walk] obtain path where
    path: "isPath nodes (Some leaf) path" "chain = map (\<lambda>p. cert (nodes ! p)) path"
      "length path \<le> length nodes"
    by auto
  from findLeaf_range [OF leaf] have "leaf < length nodes" by simp
  with isPath_range [OF path(1) wf] have rng: "\<forall>p\<in>set path. p < length nodes" by simp
  with wf have "map (\<lambda>p. cert (nodes ! p)) path = path"
    by (intro map_idI) (simp add: wfNodes_def)
  with path(2) have "chain = path" by simp
  with isPath_distinct [OF path(1)] path(3) rng len show ?thesis by simp
qed


lemma parseNodes_length:
  "parseNodes L data acc = Inr cs \<Longrightarrow> length cs = length acc + length data"
  by (induction data arbitrary: acc) (auto split: sum.splits option.splits)

lemma perm3:
  assumes "mset cs = mset [A, B, C]"
  shows "cs = [A,B,C] \<or> cs = [A,C,B] \<or> cs = [B,A,C] \<or> cs = [B,C,A] \<or> cs = [C,A,B] \<or> cs = [C,B,A]"
proof -
  have "length cs = 3" using mset_eq_length[OF assms] by simp
  then obtain x y z where cs: "cs = [x, y, z]"
    by (auto simp: length_Suc_conv numeral_3_eq_3)
  have "mset [x,y,z] = mset [A,B,C]" using assms cs by simp
  then show ?thesis unfolding cs
    by (auto simp: add_eq_conv_diff)
qed

lemma certChain_three:
  assumes a: "AuthorityKeyId A = SubjectKeyId B"
    and b: "AuthorityKeyId B = SubjectKeyId C"
    and c: "AuthorityKeyId C = SubjectKeyId C"
    and d: "distinct [SubjectKeyId A, SubjectKeyId B, SubjectKeyId C]"
    and p: "mset cs = mset [A, B, C]"
  shows "\<exists>chain. certChain cs = Inr chain \<and> map (\<lambda>p. cs ! p) chain = [A, B, C]"
proof -
  from d have ne: "SubjectKeyId A \<noteq> SubjectKeyId B" "SubjectKeyId A \<noteq> SubjectKeyId C"
    "SubjectKeyId B \<noteq> SubjectKeyId C" "SubjectKeyId B \<noteq> SubjectKeyId A"
    "SubjectKeyId C \<noteq> SubjectKeyId A" "SubjectKeyId C \<noteq> SubjectKeyId B"
    by auto
  note defs = certChain_def newNodes_def upt3
  have 1: "certChain [A, B, C] = Inr [0, 1, 2]" by (simp add: defs a b c ne)
  have 2: "certChain [A, C, B] = Inr [0, 2, 1]" by (simp add: defs a b c ne)
  have 3: "certChain [B, A, C] = Inr [1, 0, 2]" by (simp add: defs a b c ne)
  have 4: "certChain [B, C, A] = Inr [2, 0, 1]" by (simp add: defs a b c ne)
  have 5: "certChain [C, A, B] = Inr [1, 2, 0]" by (simp add: defs a b c ne)
  have 6: "certChain [C, B, A] = Inr [2, 1, 0]" by (simp add: defs a b c ne)
  from perm3 [OF p] consider "cs = [A, B, C]" | "cs = [A, C, B]" | "cs = [B, A, C]"
    | "cs = [B, C, A]" | "cs = [C, A, B]" | "cs = [C, B, A]" by blast
  then show ?thesis
  proof cases
    case 1 with \<open>certChain [A, B, C] = Inr [0, 1, 2]\<close> show ?thesis by simp
  next
    case 2 with \<open>certChain [A, C, B] = Inr [0, 2, 1]\<close> show ?thesis by simp
  next
    case 3 with \<open>certChain [B, A, C] = Inr [1, 0, 2]\<close> show ?thesis by simp
  next
    case 4 with \<open>certChain [B, C, A] = Inr [2, 0, 1]\<close> show ?thesis by simp
  next
    case 5 with \<open>certChain [C, A, B] = Inr [1, 2, 0]\<close> show ?thesis by simp
  next
    case 6 with \<open>certChain [C, B, A] = Inr [2, 1, 0]\<close> show ?thesis by simp
  qed
qed

section \<open>Encodings\<close>

lemma indexByte_nth: "distinct xs \<Longrightarrow> i < length xs \<Longrightarrow> indexByte xs (xs ! i) = Some i"
proof (induction xs arbitrary: i)
  case Nil
  then show ?case by simp
next
  case (Cons x xs)
  then show ?case by (cases i) auto
qed

lemma encodeStd_length: "length encodeStd = 64"
  by (simp add: encodeStd_def)

lemma encodeStd_distinct: "distinct encodeStd"
  by (simp add: encodeStd_def)

lemma encodeStd_index: "i < 64 \<Longrightarrow> indexByte encodeStd (encodeStd ! i) = Some i"
  by (simp add: indexByte_nth encodeStd_distinct encodeStd_length)

lemma encodeStd_plain:
  assumes "i < 64"
  shows "encodeStd ! i \<noteq> CHR ''=''" "encodeStd ! i \<noteq> CHR 0x0D" "encodeStd ! i \<noteq> CHR 0x0A"
proof -
  have "encodeStd ! i \<in> set encodeStd" using assms by (simp add: encodeStd_length)
  moreover have "CHR ''='' \<notin> set encodeStd" "CHR 0x0D \<notin> set encodeStd" "CHR 0x0A \<notin> set encodeStd"
    by (simp_all add: encodeStd_def)
  ultimately show "encodeStd ! i \<noteq> CHR ''=''" "encodeStd ! i \<noteq> CHR 0x0D" "encodeStd ! i \<noteq> CHR 0x0A"
    by metis+
qed

lemma sextet_arith:
  fixes x y z :: nat
  assumes "x < 256" "y < 256" "z < 256"
  shows "x div 4 < 64" "(x mod 4) * 16 < 64" "(x mod 4) * 16 + y div 16 < 64"
    "(y mod 16) * 4 < 64" "(y mod 16) * 4 + z div 64 < 64" "z mod 64 < 64"
    "x div 4 * 4 + ((x mod 4) * 16 + y div 16) div 16 = x"
    "x div 4 * 4 + ((x mod 4) * 16) div 16 = x"
    "(((x mod 4) * 16 + y div 16) mod 16) * 16 + ((y mod 16) * 4 + z div 64) div 4 = y"
    "(((x mod 4) * 16 + y div 16) mod 16) * 16 + ((y mod 16) * 4) div 4 = y"
    "(((y mod 16) * 4 + z div 64) mod 4) * 64 + z mod 64 = z"
proof -
  have m: "x mod 4 < 4" "y mod 16 < 16" by simp_all
  have d: "y div 16 < 16" "z div 64 < 4" "x div 4 < 64" using assms by simp_all
  show "x div 4 < 64" by (rule d)
  show "(x mod 4) * 16 < 64" using m by linarith
  show "(x mod 4) * 16 + y div 16 < 64" using m d by linarith
  show "(y mod 16) * 4 < 64" using m by linarith
  show "(y mod 16) * 4 + z div 64 < 64" using m d by linarith
  show "z mod 64 < 64" by simp
  have a: "((x mod 4) * 16 + y div 16) div 16 = x mod 4" using d by simp
  show "x div 4 * 4 + ((x mod 4) * 16 + y div 16) div 16 = x" by (simp add: a)
  show "x div 4 * 4 + ((x mod 4) * 16) div 16 = x" by simp
  show "(((x mod 4) * 16 + y div 16) mod 16) * 16 + ((y mod 16) * 4 + z div 64) div 4 = y"
    using d by simp
  show "(((x mod 4) * 16 + y div 16) mod 16) * 16 + ((y mod 16) * 4) div 4 = y"
    using d by simp
  show "(((y mod 16) * 4 + z div 64) mod 4) * 64 + z mod 64 = z" using d by simp
qed

lemmas sextet_bytes =
  sextet_arith [OF nat_of_char_less_256 nat_of_char_less_256 nat_of_char_less_256]

lemma nibble_arith:
  fixes x :: nat
  assumes "x < 256"
  shows "x div 16 div 16 = 0" "x div 16 mod 16 = x div 16"
    "x div 64 div 4 = 0" "x div 64 mod 4 = x div 64"
    "x div 16 < 16" "x mod 16 < 16"
proof -
  have d: "x div 16 < 16" "x div 64 < 4" using assms by simp_all
  then show "x div 16 div 16 = 0" "x div 16 mod 16 = x div 16"
    "x div 64 div 4 = 0" "x div 64 mod 4 = x div 64" "x div 16 < 16" "x mod 16 < 16"
    by simp_all
qed

lemmas byte_high_bits = nibble_arith [OF nat_of_char_less_256]

lemma base64_no_newlines:
  "filter (\<lambda>c. c \<noteq> CHR 0x0D \<and> c \<noteq> CHR 0x0A) (base64_EncodeToString b) = base64_EncodeToString b"
  by (induction b rule: base64_EncodeToString.induct)
    (simp_all add: Let_def encodeStd_plain sextet_bytes)

lemma decodeQuanta_encode: "decodeQuanta (base64_EncodeToString b) = Inr b"
  by (induction b rule: base64_EncodeToString.induct)
    (simp_all add: Let_def encodeStd_plain encodeStd_index sextet_bytes byte_high_bits)

lemma base64_roundtrip: "base64_DecodeString (base64_EncodeToString b) = Inr b"
  by (simp add: base64_DecodeString_def base64_no_newlines decodeQuanta_encode)

lemma hextable_inverse: "n < 16 \<Longrightarrow> fromHexChar (hextable ! n) = Some n"
proof -
  assume "n < 16"
  then have "n \<in> {0, 1, 2, 3, 4, 5, 6, 7, 8, 9, 10, 11, 12, 13, 14, 15}" by simp arith
  then show ?thesis
    by (auto simp: hextable_def fromHexChar_def)
qed

lemma hex_roundtrip: "hex_DecodeString (hex_EncodeToString b) = Inr b"
  by (induction b) (simp_all add: hextable_inverse byte_high_bits)


lemma EqualFold_first:
  "EqualFold (c # cs) (t # ts) \<Longrightarrow> foldASCII t \<noteq> 115 \<Longrightarrow> foldASCII t \<noteq> 107
     \<Longrightarrow> foldASCII c = foldASCII t"
  by (auto split: if_splits list.splits)

lemma foldASCII_letters:
  "foldASCII CHR ''b'' = 98" "foldASCII CHR ''u'' = 117" "foldASCII CHR ''h'' = 104"
  by (simp_all add: foldASCII_def)

lemma EqualFold_base64:
  assumes "EqualFold enc objectEncodingBase64"
  shows "enc \<noteq> []" "\<not> EqualFold enc objectEncodingUtf8"
proof -
  from assms obtain c cs where enc: "enc = c # cs"
    by (cases enc) (simp_all add: objectEncodingBase64_def)
  from assms have "EqualFold (c # cs) (CHR ''b'' # ''ase64'')"
    unfolding enc objectEncodingBase64_def .
  then have b: "foldASCII c = foldASCII CHR ''b''"
    by (rule EqualFold_first) (simp_all add: foldASCII_letters)
  have "\<not> EqualFold (c # cs) (CHR ''u'' # ''tf-8'')"
  proof
    assume "EqualFold (c # cs) (CHR ''u'' # ''tf-8'')"
    then have "foldASCII c = foldASCII CHR ''u''"
      by (rule EqualFold_first) (simp_all add: foldASCII_letters)
    with b show False by (simp add: foldASCII_letters)
  qed
  then show "\<not> EqualFold enc objectEncodingUtf8"
    unfolding enc objectEncodingUtf8_def .
  show "enc \<noteq> []" by (simp add: enc)
qed

lemma EqualFold_hex:
  assumes "EqualFold enc objectEncodingHex"
  shows "enc \<noteq> []" "\<not> EqualFold enc objectEncodingUtf8" "\<not> EqualFold enc objectEncodingBase64"
proof -
  from assms obtain c cs where enc: "enc = c # cs"
    by (cases enc) (simp_all add: objectEncodingHex_def)
  from assms have "EqualFold (c # cs) (CHR ''h'' # ''ex'')"
    unfolding enc objectEncodingHex_def .
  then have h: "foldASCII c = foldASCII CHR ''h''"
    by (rule EqualFold_first) (simp_all add: foldASCII_letters)
  have "\<not> EqualFold (c # cs) (CHR ''u'' # ''tf-8'')"
  proof
    assume "EqualFold (c # cs) (CHR ''u'' # ''tf-8'')"
    then have "foldASCII c = foldASCII CHR ''u''"
      by (rule EqualFold_first) (simp_all add: foldASCII_letters)
    with h show False by (simp add: foldASCII_letters)
  qed
  then show "\<not> EqualFold enc objectEncodingUtf8"
    unfolding enc objectEncodingUtf8_def .
  have "\<not> EqualFold (c # cs) (CHR ''b'' # ''ase64'')"
  proof
    assume "EqualFold (c # cs) (CHR ''b'' # ''ase64'')"
    then have "foldASCII c = foldASCII CHR ''b''"
      by (rule EqualFold_first) (simp_all add: foldASCII_letters)
    with h show False by (simp add: foldASCII_letters)
  qed
  then show "\<not> EqualFold enc objectEncodingBase64"
    unfolding enc objectEncodingBase64_def .
  show "enc \<noteq> []" by (simp add: enc)
qed

section \<open>File names\<close>

lemma Split_nonempty [simp]: "Split s sep \<noteq> []"
  by (induction s) simp_all

lemma anyDotDot_iff: "anyDotDot parts \<longleftrightarrow> ''..'' \<in> set parts"
  by (induction parts) auto

lemma Contains_map:
  "Contains (map f s) ''..'' \<Longrightarrow> f (CHR ''.'') = CHR ''.'' \<Longrightarrow>
     (\<And>c. f c = CHR ''.'' \<Longrightarrow> c = CHR ''.'') \<Longrightarrow> Contains s ''..''"
proof (induction s)
  case Nil
  then show ?case by simp
next
  case (Cons c cs)
  show ?case
  proof (cases "HasPrefix (map f (c # cs)) ''..''")
    case True
    then obtain d ds where cs: "cs = d # ds" and "f c = CHR ''.''" "f d = CHR ''.''"
      by (cases cs) (auto simp: HasPrefix_def)
    with Cons.prems(3) have "c = CHR ''.''" "d = CHR ''.''" by blast+
    with cs show ?thesis by (simp add: HasPrefix_def)
  next
    case False
    with Cons.prems(1) have "Contains (map f cs) ''..''" by simp
    with Cons show ?thesis by simp
  qed
qed

lemma Split_element_Contains:
  "''..'' \<in> set (Split s CHR ''/'') \<Longrightarrow> Contains s ''..''"
proof (induction s)
  case Nil
  then show ?case by simp
next
  case (Cons c cs)
  show ?case
  proof (cases "c = CHR ''/''")
    case True
    with Cons show ?thesis by auto
  next
    case False
    obtain p ps where sp: "Split cs CHR ''/'' = p # ps"
      by (cases "Split cs CHR ''/''") simp_all
    with False Cons.prems have "c # p = ''..'' \<or> ''..'' \<in> set ps" by auto
    then show ?thesis
    proof
      assume "c # p = ''..''"
      then have c: "c = CHR ''.''" and p: "p = ''.''" by simp_all
      from sp p have "\<exists>r. cs = CHR ''.'' # r"
        by (cases cs) (auto split: if_splits)
      with c show ?thesis by (auto simp: HasPrefix_def)
    next
      assume "''..'' \<in> set ps"
      with sp Cons.IH show ?thesis by simp
    qed
  qed
qed

lemma ToSlash_element_Contains:
  assumes "''..'' \<in> set (Split (ToSlash Separator s) CHR ''/'')"
  shows "Contains s ''..''"
proof -
  from assms have c: "Contains (ToSlash Separator s) ''..''" by (rule Split_element_Contains)
  show ?thesis
  proof (cases "Separator = CHR ''/''")
    case True
    with c show ?thesis by (simp add: ToSlash_def)
  next
    case False
    show ?thesis
    proof (cases "Separator = CHR ''.''")
      case True
      have "\<not> Contains (map (\<lambda>c. if c = CHR ''.'' then CHR ''/'' else c) s) ''..''"
        by (induction s) (auto simp: HasPrefix_def)
      with c True show ?thesis by (simp add: ToSlash_def)
    next
      case dot: False
      from c False have "Contains (map (\<lambda>c. if c = Separator then CHR ''/'' else c) s) ''..''"
        by (simp add: ToSlash_def)
      then show ?thesis
        by (rule Contains_map) (use dot in \<open>auto split: if_splits\<close>)
    qed
  qed
qed

section \<open>PKCS#12 containers\<close>

lemma decodeBlocks_streams:
  "decodeBlocks L blocks ks cs = Inr (ks', cs') \<Longrightarrow>
     \<exists>keys. ks' = ks @ keys \<and> cs' = cs @ certStream blocks
       \<and> map (pkcs8Block L) (filter (\<lambda>b. Type b \<noteq> certificateType) blocks) = map Inr keys"
proof (induction blocks arbitrary: ks cs)
  case Nil
  then show ?case by (simp add: certStream_def)
next
  case (Cons b blocks)
  show ?case
  proof (cases "Type b = certificateType")
    case True
    with Cons.prems have "decodeBlocks L blocks ks (cs @ [b\<lparr>Headers := Map.empty\<rparr>]) = Inr (ks', cs')"
      by (simp add: Let_def)
    from Cons.IH [OF this] True show ?thesis by (auto simp: certStream_def)
  next
    case False
    with Cons.prems obtain key der where
      k: "parsePrivateKey L (Bytes b) = Inr key" "MarshalPKCS8PrivateKey L key = Inr der"
      and r: "decodeBlocks L blocks (ks @ [b\<lparr>Headers := Map.empty, Bytes := der\<rparr>]) cs = Inr (ks', cs')"
      by (auto simp: Let_def split: sum.splits)
    from Cons.IH [OF r] obtain keys where
      keys: "ks' = (ks @ [b\<lparr>Headers := Map.empty, Bytes := der\<rparr>]) @ keys"
        "cs' = cs @ certStream blocks"
        "map (pkcs8Block L) (filter (\<lambda>b. Type b \<noteq> certificateType) blocks) = map Inr keys"
      by blast
    from k have "pkcs8Block L b = Inr (b\<lparr>Headers := Map.empty, Bytes := der\<rparr>)"
      by (simp add: pkcs8Block_def)
    with False keys show ?thesis
      by (intro exI [of _ "b\<lparr>Headers := Map.empty, Bytes := der\<rparr> # keys"])
        (simp add: certStream_def)
  qed
qed

lemma pkcs8Block_headers:
  assumes "map (pkcs8Block L) bs = map Inr keys" "k \<in> set keys"
  shows "Headers k = Map.empty"
proof -
  from assms(2) have "Inr k \<in> set (map Inr keys)" by simp
  with assms(1) obtain b where "pkcs8Block L b = Inr k"
    by (metis (no_types, lifting) imageE list.set_map)
  then show ?thesis
    by (auto simp: pkcs8Block_def split: sum.splits)
qed

lemma certStream_headers: "b \<in> set (certStream pemBlock) \<Longrightarrow> Headers b = Map.empty"
  by (auto simp: certStream_def)

lemma fetchCertChains_headers:
  "fetchCertChains L data = Inr out \<Longrightarrow> b \<in> set out \<Longrightarrow> Headers b = Map.empty"
  by (auto simp: fetchCertChains_def certBlock_def split: sum.splits)


section \<open>Claims\<close>

subsection \<open>Chain assembly\<close>

text \<open>
  C1, as amended. Two parsed certificates that name each other as issuer (each one's
  authority key identifier is the other's subject key identifier): both nodes are marked
  as parents, the leaf scan finds no leaf, and \<open>fetchCertChains\<close> returns the error
  "no leaf found". It returns: the function is total, and the walk that counts
  \<open>processedNodes\<close> is not reached.
\<close>

theorem fetchCertChains_mutual_issuers:
  assumes "parseNodes L data [] = Inr [a, b]"
    and "AuthorityKeyId a = SubjectKeyId b"
    and "AuthorityKeyId b = SubjectKeyId a"
  shows "fetchCertChains L data = Inl NoLeafFound"
  using assms by (simp add: fetchCertChains_def certChain_def newNodes_def upt2)

theorem fetchCertChains_mutual_issuers_witness:
  "parseNodes sampleLib [sampleBlock ''Xxy'', sampleBlock ''Yyx''] []
     = Inr [sampleCert ''Xxy'', sampleCert ''Yyx'']
   \<and> AuthorityKeyId (sampleCert ''Xxy'') = SubjectKeyId (sampleCert ''Yyx'')
   \<and> AuthorityKeyId (sampleCert ''Yyx'') = SubjectKeyId (sampleCert ''Xxy'')
   \<and> fetchCertChains sampleLib [sampleBlock ''Xxy'', sampleBlock ''Yyx''] = Inl NoLeafFound"
proof -
  have p: "parseNodes sampleLib [sampleBlock ''Xxy'', sampleBlock ''Yyx''] []
      = Inr [sampleCert ''Xxy'', sampleCert ''Yyx'']"
    by (simp add: sampleLib_def sampleBlock_def sampleCert_def)
  have a: "AuthorityKeyId (sampleCert ''Xxy'') = SubjectKeyId (sampleCert ''Yyx'')"
    by (simp add: sampleCert_def)
  have b: "AuthorityKeyId (sampleCert ''Yyx'') = SubjectKeyId (sampleCert ''Xxy'')"
    by (simp add: sampleCert_def)
  show ?thesis
    by (intro conjI p a b fetchCertChains_mutual_issuers [OF p a b])
qed

text \<open>
  C1 as stated fails: on two certificates that name each other as issuer the error is
  not the cycle error.
\<close>

theorem fetchCertChains_mutual_issuers_counterexample:
  "parseNodes sampleLib [sampleBlock ''Xxy'', sampleBlock ''Yyx''] []
     = Inr [sampleCert ''Xxy'', sampleCert ''Yyx'']
   \<and> AuthorityKeyId (sampleCert ''Xxy'') = SubjectKeyId (sampleCert ''Yyx'')
   \<and> AuthorityKeyId (sampleCert ''Yyx'') = SubjectKeyId (sampleCert ''Xxy'')
   \<and> fetchCertChains sampleLib [sampleBlock ''Xxy'', sampleBlock ''Yyx''] \<noteq> Inl ChainCycle"
  by (simp add: fetchCertChains_def certChain_def newNodes_def upt2
      sampleLib_def sampleBlock_def sampleCert_def)

text \<open>
  C3. Three parsed certificates \<open>A\<close>, \<open>B\<close>, \<open>C\<close> with pairwise distinct subject key
  identifiers, \<open>A\<close> issued by \<open>B\<close>, \<open>B\<close> issued by \<open>C\<close>, \<open>C\<close> self-signed: whatever the
  order in which the input holds them, \<open>fetchCertChains\<close> succeeds and returns three
  header-free blocks of type \<open>CERTIFICATE\<close> that hold the DER bytes of \<open>A\<close>, of \<open>B\<close> and
  of \<open>C\<close>, in this order.
\<close>

theorem fetchCertChains_leaf_to_root:
  assumes "parseNodes L data [] = Inr cs"
    and "mset cs = mset [A, B, C]"
    and "AuthorityKeyId A = SubjectKeyId B"
    and "AuthorityKeyId B = SubjectKeyId C"
    and "AuthorityKeyId C = SubjectKeyId C"
    and "distinct [SubjectKeyId A, SubjectKeyId B, SubjectKeyId C]"
  shows "fetchCertChains L data
     = Inr [\<lparr>Type = ''CERTIFICATE'', Headers = Map.empty, Bytes = Raw A\<rparr>,
            \<lparr>Type = ''CERTIFICATE'', Headers = Map.empty, Bytes = Raw B\<rparr>,
            \<lparr>Type = ''CERTIFICATE'', Headers = Map.empty, Bytes = Raw C\<rparr>]"
proof -
  from certChain_three [OF assms(3-6) assms(2)] obtain chain where
    "certChain cs = Inr chain" "map (\<lambda>p. cs ! p) chain = [A, B, C]"
    by (elim exE conjE)
  moreover from this(2) have "map (\<lambda>p. certBlock (cs ! p)) chain = map certBlock [A, B, C]"
    by (simp add: map_map [symmetric, unfolded comp_def] del: map_map)
  ultimately show ?thesis
    using assms(1) by (simp add: fetchCertChains_def certBlock_def certificateType_def)
qed

theorem fetchCertChains_leaf_to_root_witness:
  "parseNodes sampleLib [sampleBlock ''Ccc'', sampleBlock ''Aab'', sampleBlock ''Bbc''] []
     = Inr [sampleCert ''Ccc'', sampleCert ''Aab'', sampleCert ''Bbc'']
   \<and> mset [sampleCert ''Ccc'', sampleCert ''Aab'', sampleCert ''Bbc'']
     = mset [sampleCert ''Aab'', sampleCert ''Bbc'', sampleCert ''Ccc'']
   \<and> AuthorityKeyId (sampleCert ''Aab'') = SubjectKeyId (sampleCert ''Bbc'')
   \<and> AuthorityKeyId (sampleCert ''Bbc'') = SubjectKeyId (sampleCert ''Ccc'')
   \<and> AuthorityKeyId (sampleCert ''Ccc'') = SubjectKeyId (sampleCert ''Ccc'')
   \<and> distinct [SubjectKeyId (sampleCert ''Aab''), SubjectKeyId (sampleCert ''Bbc''),
        SubjectKeyId (sampleCert ''Ccc'')]
   \<and> fetchCertChains sampleLib [sampleBlock ''Ccc'', sampleBlock ''Aab'', sampleBlock ''Bbc'']
     = Inr [\<lparr>Type = ''CERTIFICATE'', Headers = Map.empty, Bytes = ''Aab''\<rparr>,
            \<lparr>Type = ''CERTIFICATE'', Headers = Map.empty, Bytes = ''Bbc''\<rparr>,
            \<lparr>Type = ''CERTIFICATE'', Headers = Map.empty, Bytes = ''Ccc''\<rparr>]"
proof -
  have p: "parseNodes sampleLib [sampleBlock ''Ccc'', sampleBlock ''Aab'', sampleBlock ''Bbc''] []
      = Inr [sampleCert ''Ccc'', sampleCert ''Aab'', sampleCert ''Bbc'']"
    by (simp add: sampleLib_def sampleBlock_def sampleCert_def)
  have m: "mset [sampleCert ''Ccc'', sampleCert ''Aab'', sampleCert ''Bbc'']
      = mset [sampleCert ''Aab'', sampleCert ''Bbc'', sampleCert ''Ccc'']"
    by simp
  have a: "AuthorityKeyId (sampleCert ''Aab'') = SubjectKeyId (sampleCert ''Bbc'')"
    and b: "AuthorityKeyId (sampleCert ''Bbc'') = SubjectKeyId (sampleCert ''Ccc'')"
    and c: "AuthorityKeyId (sampleCert ''Ccc'') = SubjectKeyId (sampleCert ''Ccc'')"
    and d: "distinct [SubjectKeyId (sampleCert ''Aab''), SubjectKeyId (sampleCert ''Bbc''),
        SubjectKeyId (sampleCert ''Ccc'')]"
    by (simp_all add: sampleCert_def)
  have raw: "Raw (sampleCert ''Aab'') = ''Aab''" "Raw (sampleCert ''Bbc'') = ''Bbc''"
    "Raw (sampleCert ''Ccc'') = ''Ccc''"
    by (simp_all add: sampleCert_def)
  have r: "fetchCertChains sampleLib [sampleBlock ''Ccc'', sampleBlock ''Aab'', sampleBlock ''Bbc'']
     = Inr [\<lparr>Type = ''CERTIFICATE'', Headers = Map.empty, Bytes = ''Aab''\<rparr>,
            \<lparr>Type = ''CERTIFICATE'', Headers = Map.empty, Bytes = ''Bbc''\<rparr>,
            \<lparr>Type = ''CERTIFICATE'', Headers = Map.empty, Bytes = ''Ccc''\<rparr>]"
    using fetchCertChains_leaf_to_root [OF p m a b c d] by (simp only: raw)
  show ?thesis
    by (intro conjI p m a b c d r)
qed

text \<open>
  C5. One parsed certificate, self-signed or not: \<open>fetchCertChains\<close> succeeds and returns
  one header-free block of type \<open>CERTIFICATE\<close> that holds the DER bytes of that
  certificate.
\<close>

theorem fetchCertChains_single:
  assumes "parseNodes L data [] = Inr [c]"
  shows "fetchCertChains L data
     = Inr [\<lparr>Type = ''CERTIFICATE'', Headers = Map.empty, Bytes = Raw c\<rparr>]"
  using assms
  by (simp add: fetchCertChains_def certChain_def newNodes_def certBlock_def certificateType_def)

theorem fetchCertChains_single_witness:
  "parseNodes sampleLib [sampleBlock ''Ccc''] [] = Inr [sampleCert ''Ccc'']
   \<and> AuthorityKeyId (sampleCert ''Ccc'') = SubjectKeyId (sampleCert ''Ccc'')
   \<and> fetchCertChains sampleLib [sampleBlock ''Ccc'']
     = Inr [\<lparr>Type = ''CERTIFICATE'', Headers = Map.empty, Bytes = ''Ccc''\<rparr>]"
proof -
  have p: "parseNodes sampleLib [sampleBlock ''Ccc''] [] = Inr [sampleCert ''Ccc'']"
    by (simp add: sampleLib_def sampleBlock_def sampleCert_def)
  have a: "AuthorityKeyId (sampleCert ''Ccc'') = SubjectKeyId (sampleCert ''Ccc'')"
    by (simp add: sampleCert_def)
  have raw: "Raw (sampleCert ''Ccc'') = ''Ccc''"
    by (simp add: sampleCert_def)
  have r: "fetchCertChains sampleLib [sampleBlock ''Ccc'']
     = Inr [\<lparr>Type = ''CERTIFICATE'', Headers = Map.empty, Bytes = ''Ccc''\<rparr>]"
    using fetchCertChains_single [OF p] by (simp only: raw)
  show ?thesis
    by (intro conjI p a r)
qed

text \<open>
  C6, as amended. When \<open>fetchCertChains\<close> succeeds, the chain it walked (\<open>newCertChain\<close>,
  a list of pointers to the parsed certificates) visits no input certificate twice, the
  output is one header-free \<open>CERTIFICATE\<close> block per visited certificate, and it has at
  most as many blocks as the input has certificates. When no two input certificates have
  the same DER bytes, no certificate appears twice in the output.
\<close>

theorem fetchCertChains_no_repeat:
  assumes "fetchCertChains L data = Inr out"
  shows "\<exists>cs newCertChain.
           parseNodes L data [] = Inr cs \<and> certChain cs = Inr newCertChain
         \<and> out = map (\<lambda>p. \<lparr>Type = ''CERTIFICATE'', Headers = Map.empty, Bytes = Raw (cs ! p)\<rparr>)
                   newCertChain
         \<and> distinct newCertChain \<and> (\<forall>p\<in>set newCertChain. p < length cs)
         \<and> length out \<le> length data \<and> length cs = length data
         \<and> (distinct (map Raw cs) \<longrightarrow> distinct out)"
proof -
  let ?blk = "\<lambda>p. \<lparr>Type = ''CERTIFICATE'', Headers = Map.empty, Bytes = Raw (cs ! p)\<rparr>"
  from assms obtain cs chain where
    p: "parseNodes L data [] = Inr cs" and c: "certChain cs = Inr chain"
    and out: "out = map (\<lambda>p. \<lparr>Type = ''CERTIFICATE'', Headers = Map.empty,
                Bytes = Raw (cs ! p)\<rparr>) chain"
    by (auto simp: fetchCertChains_def certBlock_def certificateType_def split: sum.splits)
  from certChain_path [OF c] have d: "distinct chain" and l: "length chain \<le> length cs"
    and r: "\<forall>p\<in>set chain. p < length cs" by simp_all
  from parseNodes_length [OF p] have n: "length cs = length data" by simp
  with l out have len: "length out \<le> length data" by simp
  have "distinct out" if dr: "distinct (map Raw cs)"
  proof -
    have "inj_on (\<lambda>p. \<lparr>Type = ''CERTIFICATE'', Headers = Map.empty,
                Bytes = Raw (cs ! p)\<rparr>) (set chain)"
    proof (rule inj_onI)
      fix p q assume pq: "p \<in> set chain" "q \<in> set chain"
        and eq: "\<lparr>Type = ''CERTIFICATE'', Headers = Map.empty, Bytes = Raw (cs ! p)\<rparr>
               = \<lparr>Type = ''CERTIFICATE'', Headers = Map.empty, Bytes = Raw (cs ! q)\<rparr>"
      from pq r have lt: "p < length cs" "q < length cs" by simp_all
      from eq have "Raw (cs ! p) = Raw (cs ! q)" by simp
      with lt have "map Raw cs ! p = map Raw cs ! q" by (simp only: nth_map)
      with dr lt show "p = q"
        using nth_eq_iff_index_eq [of "map Raw cs" p q] by (simp only: length_map)
    qed
    with d show ?thesis unfolding out by (simp add: distinct_map)
  qed
  with p c out d r len n show ?thesis by blast
qed

theorem fetchCertChains_no_repeat_witness:
  "fetchCertChains sampleLib [sampleBlock ''Ccc'', sampleBlock ''Aab'', sampleBlock ''Bbc'']
     = Inr [\<lparr>Type = ''CERTIFICATE'', Headers = Map.empty, Bytes = ''Aab''\<rparr>,
            \<lparr>Type = ''CERTIFICATE'', Headers = Map.empty, Bytes = ''Bbc''\<rparr>,
            \<lparr>Type = ''CERTIFICATE'', Headers = Map.empty, Bytes = ''Ccc''\<rparr>]
   \<and> certChain [sampleCert ''Ccc'', sampleCert ''Aab'', sampleCert ''Bbc''] = Inr [1, 2, 0]
   \<and> distinct [1, 2, 0 :: nat]
   \<and> distinct (map Raw [sampleCert ''Ccc'', sampleCert ''Aab'', sampleCert ''Bbc''])
   \<and> distinct [\<lparr>Type = ''CERTIFICATE'', Headers = Map.empty, Bytes = ''Aab''\<rparr>,
        \<lparr>Type = ''CERTIFICATE'', Headers = Map.empty, Bytes = ''Bbc''\<rparr>,
        \<lparr>Type = ''CERTIFICATE'', Headers = Map.empty, Bytes = ''Ccc''\<rparr>]"
proof -
  have p: "parseNodes sampleLib [sampleBlock ''Ccc'', sampleBlock ''Aab'', sampleBlock ''Bbc''] []
      = Inr [sampleCert ''Ccc'', sampleCert ''Aab'', sampleCert ''Bbc'']"
    by (simp add: sampleLib_def sampleBlock_def sampleCert_def)
  have c: "certChain [sampleCert ''Ccc'', sampleCert ''Aab'', sampleCert ''Bbc''] = Inr [1, 2, 0]"
    by (simp add: certChain_def newNodes_def upt3 sampleCert_def)
  have f: "fetchCertChains sampleLib [sampleBlock ''Ccc'', sampleBlock ''Aab'', sampleBlock ''Bbc'']
     = Inr [\<lparr>Type = ''CERTIFICATE'', Headers = Map.empty, Bytes = ''Aab''\<rparr>,
            \<lparr>Type = ''CERTIFICATE'', Headers = Map.empty, Bytes = ''Bbc''\<rparr>,
            \<lparr>Type = ''CERTIFICATE'', Headers = Map.empty, Bytes = ''Ccc''\<rparr>]"
    by (simp only: fetchCertChains_def p sum.case c)
      (simp add: certBlock_def certificateType_def sampleCert_def)
  have r: "distinct (map Raw [sampleCert ''Ccc'', sampleCert ''Aab'', sampleCert ''Bbc''])"
    by (simp add: sampleCert_def)
  from fetchCertChains_no_repeat [OF f] obtain cs where
    "parseNodes sampleLib [sampleBlock ''Ccc'', sampleBlock ''Aab'', sampleBlock ''Bbc''] [] = Inr cs"
    and imp: "distinct (map Raw cs) \<longrightarrow>
      distinct [\<lparr>Type = ''CERTIFICATE'', Headers = Map.empty, Bytes = ''Aab''\<rparr>,
        \<lparr>Type = ''CERTIFICATE'', Headers = Map.empty, Bytes = ''Bbc''\<rparr>,
        \<lparr>Type = ''CERTIFICATE'', Headers = Map.empty, Bytes = ''Ccc''\<rparr>]"
    by (elim exE conjE)
  with p have "cs = [sampleCert ''Ccc'', sampleCert ''Aab'', sampleCert ''Bbc'']"
    by (simp only: sum.inject)
  with imp r have o: "distinct [\<lparr>Type = ''CERTIFICATE'', Headers = Map.empty, Bytes = ''Aab''\<rparr>,
        \<lparr>Type = ''CERTIFICATE'', Headers = Map.empty, Bytes = ''Bbc''\<rparr>,
        \<lparr>Type = ''CERTIFICATE'', Headers = Map.empty, Bytes = ''Ccc''\<rparr>]"
    by (simp only:)
  have n: "distinct [1, 2, 0 :: nat]" by simp
  show ?thesis
    by (intro conjI f c n r o)
qed

text \<open>
  C6 as stated fails on an input that holds the same certificate twice: the chain
  visits both copies, so the certificate appears twice in the output.
\<close>

theorem fetchCertChains_no_repeat_counterexample:
  "parseNodes sampleLib [sampleBlock ''Akk'', sampleBlock ''Rkr'', sampleBlock ''Akk''] []
     = Inr [sampleCert ''Akk'', sampleCert ''Rkr'', sampleCert ''Akk'']
   \<and> fetchCertChains sampleLib [sampleBlock ''Akk'', sampleBlock ''Rkr'', sampleBlock ''Akk'']
     = Inr [\<lparr>Type = ''CERTIFICATE'', Headers = Map.empty, Bytes = ''Akk''\<rparr>,
            \<lparr>Type = ''CERTIFICATE'', Headers = Map.empty, Bytes = ''Akk''\<rparr>,
            \<lparr>Type = ''CERTIFICATE'', Headers = Map.empty, Bytes = ''Rkr''\<rparr>]
   \<and> \<not> distinct [\<lparr>Type = ''CERTIFICATE'', Headers = Map.empty, Bytes = ''Akk''\<rparr>,
            \<lparr>Type = ''CERTIFICATE'', Headers = Map.empty, Bytes = ''Akk''\<rparr>,
            \<lparr>Type = ''CERTIFICATE'', Headers = Map.empty, Bytes = ''Rkr''\<rparr>]"
  by (simp add: fetchCertChains_def certChain_def newNodes_def upt3 certBlock_def
      certificateType_def sampleLib_def sampleBlock_def sampleCert_def)

subsection \<open>Object format and encoding\<close>

text \<open>
  C2. The format \<open>PFX\<close> in upper case passes the case-insensitive check of the format
  name, and the later test that restricts PFX to secrets compares with \<open>==\<close>: for the
  object type \<open>key\<close> the function returns \<open>nil\<close>, where the lower-case spelling is
  rejected.
\<close>

theorem validateObjectFormat_upper_case_pfx:
  "validateObjectFormat ''PFX'' VaultObjectTypeKey = None
   \<and> validateObjectFormat ''pfx'' VaultObjectTypeKey = Some PFXOnlyForSecret
   \<and> EqualFold ''PFX'' objectFormatPFX"
  by (simp add: validateObjectFormat_def objectFormatPFX_def objectFormatPEM_def
      VaultObjectTypeKey_def VaultObjectTypeSecret_def foldASCII_def)

text \<open>
  C4. When the object type is not \<open>secret\<close> (compared as \<open>getContentBytes\<close> compares it,
  without regard to letter case), or the encoding is empty, or the encoding is \<open>utf-8\<close>
  in any letter case, \<open>getContentBytes\<close> succeeds and returns the content unchanged.
\<close>

theorem getContentBytes_unchanged:
  assumes "\<not> EqualFold objectType VaultObjectTypeSecret \<or> objectEncoding = []
    \<or> EqualFold objectEncoding objectEncodingUtf8"
  shows "getContentBytes content objectType objectEncoding = Inr content"
  using assms by (auto simp: getContentBytes_def)

theorem getContentBytes_unchanged_witness:
  "\<not> EqualFold ''key'' VaultObjectTypeSecret
   \<and> getContentBytes ''aGk'' ''key'' ''base64'' = Inr ''aGk''
   \<and> getContentBytes ''aGk'' ''secret'' [] = Inr ''aGk''
   \<and> EqualFold ''UTF-8'' objectEncodingUtf8
   \<and> getContentBytes ''aGk'' ''secret'' ''UTF-8'' = Inr ''aGk''"
proof -
  have k: "\<not> EqualFold ''key'' VaultObjectTypeSecret"
    by (simp add: VaultObjectTypeSecret_def foldASCII_def)
  have u: "EqualFold ''UTF-8'' objectEncodingUtf8"
    by (simp add: objectEncodingUtf8_def foldASCII_def)
  have 1: "getContentBytes ''aGk'' ''key'' ''base64'' = Inr ''aGk''"
    by (rule getContentBytes_unchanged) (simp add: k)
  have 2: "getContentBytes ''aGk'' ''secret'' [] = Inr ''aGk''"
    by (rule getContentBytes_unchanged) simp
  have 3: "getContentBytes ''aGk'' ''secret'' ''UTF-8'' = Inr ''aGk''"
    by (rule getContentBytes_unchanged) (simp add: u)
  show ?thesis
    by (intro conjI k u 1 2 3)
qed

text \<open>
  C9. For an object of type \<open>secret\<close> and every byte buffer \<open>b\<close>: with the encoding
  \<open>base64\<close> (in any letter case) \<open>getContentBytes\<close> maps the standard base64 encoding of
  \<open>b\<close> to \<open>b\<close>, and with the encoding \<open>hex\<close> it maps the hexadecimal encoding of \<open>b\<close>
  to \<open>b\<close>.
\<close>

theorem getContentBytes_roundtrip:
  assumes "EqualFold objectType VaultObjectTypeSecret"
  shows "(EqualFold objectEncoding objectEncodingBase64 \<longrightarrow>
            getContentBytes (base64_EncodeToString b) objectType objectEncoding = Inr b)
       \<and> (EqualFold objectEncoding objectEncodingHex \<longrightarrow>
            getContentBytes (hex_EncodeToString b) objectType objectEncoding = Inr b)"
  using assms
  by (auto simp: getContentBytes_def base64_roundtrip hex_roundtrip
      dest: EqualFold_base64 EqualFold_hex)

theorem getContentBytes_roundtrip_witness:
  "EqualFold ''secret'' VaultObjectTypeSecret
   \<and> EqualFold ''base64'' objectEncodingBase64
   \<and> base64_EncodeToString ''hi'' = ''aGk=''
   \<and> getContentBytes ''aGk='' ''secret'' ''base64'' = Inr ''hi''
   \<and> EqualFold ''hex'' objectEncodingHex
   \<and> hex_EncodeToString ''hi'' = ''6869''
   \<and> getContentBytes ''6869'' ''secret'' ''hex'' = Inr ''hi''"
proof -
  have s: "EqualFold ''secret'' VaultObjectTypeSecret"
    by (simp add: VaultObjectTypeSecret_def)
  have e: "EqualFold ''base64'' objectEncodingBase64"
    by (simp add: objectEncodingBase64_def)
  have h: "EqualFold ''hex'' objectEncodingHex"
    by (simp add: objectEncodingHex_def)
  have b64: "base64_EncodeToString ''hi'' = ''aGk=''"
    by (simp add: encodeStd_def)
  have hx: "hex_EncodeToString ''hi'' = ''6869''"
    by (simp add: hextable_def)
  have "getContentBytes (base64_EncodeToString ''hi'') ''secret'' ''base64'' = Inr ''hi''"
    by (rule getContentBytes_roundtrip [OF s, THEN conjunct1, THEN mp, OF e])
  then have 1: "getContentBytes ''aGk='' ''secret'' ''base64'' = Inr ''hi''"
    by (simp only: b64)
  have "getContentBytes (hex_EncodeToString ''hi'') ''secret'' ''hex'' = Inr ''hi''"
    by (rule getContentBytes_roundtrip [OF s, THEN conjunct2, THEN mp, OF h])
  then have 2: "getContentBytes ''6869'' ''secret'' ''hex'' = Inr ''hi''"
    by (simp only: hx)
  show ?thesis
    by (intro conjI s e h b64 hx 1 2)
qed

subsection \<open>File names\<close>

text \<open>
  C10. \<open>validateFileName\<close> returns an error exactly when the name is empty, is an
  absolute path, or contains \<open>..\<close>; a name with a path element equal to \<open>..\<close> is among
  them. So a file name that the mount accepts is not empty, is relative, and has no
  \<open>..\<close> in it.
\<close>

theorem validateFileName_iff:
  "(validateFileName IsAbs Separator fileName \<noteq> None
      \<longleftrightarrow> fileName = [] \<or> IsAbs fileName \<or> Contains fileName ''..'')
   \<and> (''..'' \<in> set (Split (ToSlash Separator fileName) CHR ''/'')
        \<longrightarrow> validateFileName IsAbs Separator fileName \<noteq> None)
   \<and> (\<forall>f. mountFileName IsAbs Separator keyVaultObject = Inr f
        \<longrightarrow> f \<noteq> [] \<and> \<not> IsAbs f \<and> \<not> Contains f ''..''
            \<and> ''..'' \<notin> set (Split (ToSlash Separator f) CHR ''/''))"
  using ToSlash_element_Contains [of Separator]
  by (auto simp: validateFileName_def mountFileName_def anyDotDot_iff Let_def
      split: if_splits option.splits)

theorem validateFileName_iff_witness:
  "''..'' \<in> set (Split (ToSlash CHR ''/'' ''certs/../key'') CHR ''/'')
   \<and> validateFileName IsAbs_unix CHR ''/'' ''certs/../key'' \<noteq> None
   \<and> Contains ''certs/../key'' ''..''
   \<and> mountFileName IsAbs_unix CHR ''/''
        \<lparr>ObjectName = ''tls'', ObjectAlias = ''certs/tls.crt'', ObjectVersion = [],
         ObjectType = ''secret'', ObjectFormat = [], ObjectEncoding = []\<rparr> = Inr ''certs/tls.crt''
   \<and> \<not> IsAbs_unix ''certs/tls.crt'' \<and> \<not> Contains ''certs/tls.crt'' ''..''"
proof -
  let ?obj = "\<lparr>ObjectName = ''tls'', ObjectAlias = ''certs/tls.crt'', ObjectVersion = [],
         ObjectType = ''secret'', ObjectFormat = [], ObjectEncoding = []\<rparr>"
  note th = validateFileName_iff [of IsAbs_unix "CHR ''/''" "''certs/../key''" ?obj]
  have e: "''..'' \<in> set (Split (ToSlash CHR ''/'' ''certs/../key'') CHR ''/'')"
    by (simp add: ToSlash_def)
  with th have v: "validateFileName IsAbs_unix CHR ''/'' ''certs/../key'' \<noteq> None"
    by blast
  with th have c: "Contains ''certs/../key'' ''..''"
    by (simp add: IsAbs_unix_def HasPrefix_def)
  have m: "mountFileName IsAbs_unix CHR ''/'' ?obj = Inr ''certs/tls.crt''"
    by (simp add: mountFileName_def validateFileName_def IsAbs_unix_def HasPrefix_def
        ToSlash_def)
  with th have a: "\<not> IsAbs_unix ''certs/tls.crt''" and n: "\<not> Contains ''certs/tls.crt'' ''..''"
    by blast+
  show ?thesis
    by (intro conjI e v c m a n)
qed

subsection \<open>Private keys and PKCS#12 containers\<close>

text \<open>
  C8. \<open>parsePrivateKey\<close> returns the key of the PKCS#1 parser when that parser succeeds,
  otherwise the key of the PKCS#8 parser when that one succeeds, otherwise the key of the
  EC parser when that one succeeds; it returns an error exactly when the three parsers
  fail, and the error is then its own.
\<close>

theorem parsePrivateKey_first_success:
  "(\<forall>key. ParsePKCS1PrivateKey L block = Inr key \<longrightarrow> parsePrivateKey L block = Inr key)
   \<and> (\<forall>key. isl (ParsePKCS1PrivateKey L block) \<and> ParsePKCS8PrivateKey L block = Inr key
        \<longrightarrow> parsePrivateKey L block = Inr key)
   \<and> (\<forall>key. isl (ParsePKCS1PrivateKey L block) \<and> isl (ParsePKCS8PrivateKey L block)
          \<and> ParseECPrivateKey L block = Inr key
        \<longrightarrow> parsePrivateKey L block = Inr key)
   \<and> (isl (parsePrivateKey L block)
        \<longleftrightarrow> isl (ParsePKCS1PrivateKey L block) \<and> isl (ParsePKCS8PrivateKey L block)
            \<and> isl (ParseECPrivateKey L block))
   \<and> (isl (parsePrivateKey L block) \<longrightarrow> parsePrivateKey L block = Inl KeyParseFailed)"
  by (auto simp: parsePrivateKey_def split: sum.splits)

theorem parsePrivateKey_first_success_witness:
  "ParsePKCS1PrivateKey sampleLib ''1k'' = Inr ''k'' \<and> parsePrivateKey sampleLib ''1k'' = Inr ''k''
   \<and> isl (ParsePKCS1PrivateKey sampleLib ''8k'') \<and> ParsePKCS8PrivateKey sampleLib ''8k'' = Inr ''k''
   \<and> parsePrivateKey sampleLib ''8k'' = Inr ''k''
   \<and> isl (ParsePKCS8PrivateKey sampleLib ''Ek'') \<and> ParseECPrivateKey sampleLib ''Ek'' = Inr ''k''
   \<and> parsePrivateKey sampleLib ''Ek'' = Inr ''k''
   \<and> isl (ParseECPrivateKey sampleLib ''?'') \<and> parsePrivateKey sampleLib ''?'' = Inl KeyParseFailed"
proof -
  have 1: "ParsePKCS1PrivateKey sampleLib ''1k'' = Inr ''k''"
    and 2: "isl (ParsePKCS1PrivateKey sampleLib ''8k'')"
      "ParsePKCS8PrivateKey sampleLib ''8k'' = Inr ''k''"
    and 3: "isl (ParsePKCS1PrivateKey sampleLib ''Ek'')"
      "isl (ParsePKCS8PrivateKey sampleLib ''Ek'')" "ParseECPrivateKey sampleLib ''Ek'' = Inr ''k''"
    and 4: "isl (ParsePKCS1PrivateKey sampleLib ''?'')"
      "isl (ParsePKCS8PrivateKey sampleLib ''?'')" "isl (ParseECPrivateKey sampleLib ''?'')"
    by (simp_all add: sampleLib_def)
  from parsePrivateKey_first_success [of sampleLib "''1k''"] 1
  have r1: "parsePrivateKey sampleLib ''1k'' = Inr ''k''" by blast
  from parsePrivateKey_first_success [of sampleLib "''8k''"] 2
  have r2: "parsePrivateKey sampleLib ''8k'' = Inr ''k''" by blast
  from parsePrivateKey_first_success [of sampleLib "''Ek''"] 3
  have r3: "parsePrivateKey sampleLib ''Ek'' = Inr ''k''" by blast
  from parsePrivateKey_first_success [of sampleLib "''?''"] 4
  have r4: "parsePrivateKey sampleLib ''?'' = Inl KeyParseFailed" by blast
  show ?thesis
    by (intro conjI 1 2 3 4 r1 r2 r3 r4)
qed

text \<open>
  C7, as amended. When \<open>decodePKCS12\<close> succeeds, its output is the key stream followed
  by the certificate stream. The key stream holds, in container order, every block of
  the container that is not a certificate, with its bytes replaced by the PKCS#8
  encoding of the key parsed from it. The certificate stream is, when chain construction
  is off, every certificate block of the container in container order, and when it is
  on, the result of \<open>fetchCertChains\<close> on these blocks. Every block of the output has an
  empty header map.
\<close>

theorem decodePKCS12_keys_then_certs:
  assumes "decodePKCS12 L ConstructPEMChain value = Inr pemData"
  shows "\<exists>pfxRaw pemBlock keys certs.
           base64_DecodeString value = Inr pfxRaw \<and> ToPEM L pfxRaw = Inr pemBlock
         \<and> pemData = keys @ certs
         \<and> map (pkcs8Block L) (filter (\<lambda>b. Type b \<noteq> certificateType) pemBlock) = map Inr keys
         \<and> (if ConstructPEMChain then fetchCertChains L (certStream pemBlock) = Inr certs
            else certs = certStream pemBlock)
         \<and> (\<forall>b\<in>set pemData. Headers b = Map.empty)"
proof -
  from assms obtain pfxRaw pemBlock ks cs where
    d: "base64_DecodeString value = Inr pfxRaw" and t: "ToPEM L pfxRaw = Inr pemBlock"
    and l: "decodeBlocks L pemBlock [] [] = Inr (ks, cs)"
    and o: "if ConstructPEMChain
            then \<exists>chain. fetchCertChains L cs = Inr chain \<and> pemData = ks @ chain
            else pemData = ks @ cs"
    by (auto simp: decodePKCS12_def split: sum.splits prod.splits if_splits)
  from decodeBlocks_streams [OF l] have cs: "cs = certStream pemBlock"
    and ks: "map (pkcs8Block L) (filter (\<lambda>b. Type b \<noteq> certificateType) pemBlock) = map Inr ks"
    by auto
  from o obtain certs where c: "pemData = ks @ certs"
    and f: "if ConstructPEMChain then fetchCertChains L (certStream pemBlock) = Inr certs
            else certs = certStream pemBlock"
    unfolding cs by (cases ConstructPEMChain) auto
  have "Headers b = Map.empty" if "b \<in> set pemData" for b
  proof (cases "b \<in> set ks")
    case True
    with ks show ?thesis by (rule pkcs8Block_headers)
  next
    case False
    with that c have b: "b \<in> set certs" by simp
    show ?thesis
    proof (cases ConstructPEMChain)
      case True
      with f have "fetchCertChains L (certStream pemBlock) = Inr certs" by simp
      then show ?thesis using b by (rule fetchCertChains_headers)
    next
      case False
      with f b show ?thesis by (simp add: certStream_headers)
    qed
  qed
  with d t c ks f show ?thesis by blast
qed

theorem decodePKCS12_keys_then_certs_witness:
  "decodePKCS12 sampleLib False ''UEZY''
     = Inr [\<lparr>Type = ''PRIVATE KEY'', Headers = Map.empty, Bytes = ''8k''\<rparr>,
            sampleBlock ''Aab'', sampleBlock ''Ccc'']
   \<and> map Headers [\<lparr>Type = ''PRIVATE KEY'', Headers = Map.empty, Bytes = ''8k''\<rparr>,
            sampleBlock ''Aab'', sampleBlock ''Ccc''] = [Map.empty, Map.empty, Map.empty]"
proof -
  have d: "base64_DecodeString ''UEZY'' = Inr ''PFX''"
    by (simp add: base64_DecodeString_def encodeStd_def char_of_eq_iff)
  have r: "decodePKCS12 sampleLib False ''UEZY''
     = Inr [\<lparr>Type = ''PRIVATE KEY'', Headers = Map.empty, Bytes = ''8k''\<rparr>,
            sampleBlock ''Aab'', sampleBlock ''Ccc'']"
    unfolding decodePKCS12_def d
    by (simp add: sampleLib_def sampleBlock_def parsePrivateKey_def certificateType_def)
  from decodePKCS12_keys_then_certs [OF r]
  have "\<forall>b \<in> set [\<lparr>Type = ''PRIVATE KEY'', Headers = Map.empty, Bytes = ''8k''\<rparr>,
            sampleBlock ''Aab'', sampleBlock ''Ccc'']. Headers b = Map.empty"
    by (elim exE conjE)
  then have "map Headers [\<lparr>Type = ''PRIVATE KEY'', Headers = Map.empty, Bytes = ''8k''\<rparr>,
            sampleBlock ''Aab'', sampleBlock ''Ccc''] = [Map.empty, Map.empty, Map.empty]"
    by simp
  with r show ?thesis by (intro conjI)
qed

text \<open>
  C7 as stated fails when chain construction is on: of the two certificates of the
  sample container, neither of which issued the other, the output keeps the first only.
\<close>

theorem decodePKCS12_keys_then_certs_counterexample:
  "base64_DecodeString ''UEZY'' = Inr ''PFX''
   \<and> map_sum id certStream (ToPEM sampleLib ''PFX'') = Inr [sampleBlock ''Aab'', sampleBlock ''Ccc'']
   \<and> decodePKCS12 sampleLib True ''UEZY''
     = Inr [\<lparr>Type = ''PRIVATE KEY'', Headers = Map.empty, Bytes = ''8k''\<rparr>, sampleBlock ''Aab'']"
proof -
  have d: "base64_DecodeString ''UEZY'' = Inr ''PFX''"
    by (simp add: base64_DecodeString_def encodeStd_def char_of_eq_iff)
  have s: "map_sum id certStream (ToPEM sampleLib ''PFX'')
      = Inr [sampleBlock ''Aab'', sampleBlock ''Ccc'']"
    by (simp add: sampleLib_def sampleBlock_def certStream_def certificateType_def)
  have r: "decodePKCS12 sampleLib True ''UEZY''
     = Inr [\<lparr>Type = ''PRIVATE KEY'', Headers = Map.empty, Bytes = ''8k''\<rparr>, sampleBlock ''Aab'']"
    unfolding decodePKCS12_def d
    by (simp add: sampleLib_def sampleBlock_def parsePrivateKey_def certificateType_def
        fetchCertChains_def certChain_def newNodes_def upt2 certBlock_def)
  show ?thesis
    by (intro conjI d s r)
qed

end
